theory Spec2Isabelle
  imports Complex_Main "HOL-Library.Monad_Syntax"
begin

section \<open>JavaScript strings and numbers\<close>

text \<open>
  A string is a list of code units; the model covers the code units below 256.
  Comparison of two strings with \<open><\<close> is the lexicographic order of their code
  units, a proper prefix being smaller.
\<close>

fun js_lt :: "string \<Rightarrow> string \<Rightarrow> bool" where
  "js_lt [] [] = False"
| "js_lt [] (y # ys) = True"
| "js_lt (x # xs) [] = False"
| "js_lt (x # xs) (y # ys) =
     (if (of_char x :: nat) < of_char y then True
      else if (of_char y :: nat) < of_char x then False
      else js_lt xs ys)"

definition js_le :: "string \<Rightarrow> string \<Rightarrow> bool" where
  "js_le a b = (\<not> js_lt b a)"

text \<open>\<open>s.slice(a, b)\<close> for \<open>0 \<le> a \<le> b\<close>: both ends are clamped to the length.\<close>

definition slice :: "string \<Rightarrow> nat \<Rightarrow> nat \<Rightarrow> string" where
  "slice s a b = take (b - a) (drop a s)"

text \<open>
  \<open>s.replace(pat, rep)\<close> with a string pattern replaces the first occurrence of
  \<open>pat\<close> only (the replacement used by the program has no \<open>$\<close> patterns).
\<close>

fun is_prefix :: "string \<Rightarrow> string \<Rightarrow> bool" where
  "is_prefix [] s = True"
| "is_prefix (p # ps) [] = False"
| "is_prefix (p # ps) (c # cs) = (c = p \<and> is_prefix ps cs)"

fun replace :: "string \<Rightarrow> string \<Rightarrow> string \<Rightarrow> string" where
  "replace pat rep [] = (if pat = [] then rep else [])"
| "replace pat rep (c # cs) =
     (if is_prefix pat (c # cs) then rep @ drop (length pat) (c # cs)
      else c # replace pat rep cs)"

text \<open>
  A Number is NaN, an infinity or a finite value. Finite values are kept exact: the
  program only builds them from literals of at most four characters and from integers
  far below \<open>2^53\<close>, and only their integer parts are used.
\<close>

datatype jsnum = NaN | PosInf | NegInf | Fin rat

definition isWhiteSpace :: "char \<Rightarrow> bool" where
  "isWhiteSpace c = ((of_char c :: nat) \<in> {9, 10, 11, 12, 13, 32, 160})"

definition isDigit :: "char \<Rightarrow> bool" where
  "isDigit c = (48 \<le> (of_char c :: nat) \<and> (of_char c :: nat) \<le> 57)"

definition digit_val :: "char \<Rightarrow> nat" where
  "digit_val c =
     (let n = (of_char c :: nat) in
      if 48 \<le> n \<and> n \<le> 57 then n - 48
      else if 97 \<le> n \<and> n \<le> 102 then n - 87
      else if 65 \<le> n \<and> n \<le> 70 then n - 55
      else 16)"

text \<open>The mathematical value of a digit string in a base.\<close>

definition digits_val :: "nat \<Rightarrow> string \<Rightarrow> nat" where
  "digits_val b s = foldl (\<lambda>a c. a * b + digit_val c) 0 s"

definition all_digits :: "nat \<Rightarrow> string \<Rightarrow> bool" where
  "all_digits b s = (s \<noteq> [] \<and> list_all (\<lambda>c. digit_val c < b) s)"

definition trimStart :: "string \<Rightarrow> string" where
  "trimStart s = dropWhile isWhiteSpace s"

definition trim :: "string \<Rightarrow> string" where
  "trim s = rev (trimStart (rev (trimStart s)))"

definition pow10 :: "int \<Rightarrow> rat" where
  "pow10 e = (if 0 \<le> e then 10 ^ nat e else 1 / 10 ^ nat (- e))"

text \<open>An optional ExponentPart that must reach the end of the literal.\<close>

definition exponent_part :: "string \<Rightarrow> int option" where
  "exponent_part s =
     (case s of
        [] \<Rightarrow> Some 0
      | c # r \<Rightarrow>
          if c = CHR ''e'' \<or> c = CHR ''E'' then
            (case r of
               [] \<Rightarrow> None
             | d # ds \<Rightarrow>
                 if d = CHR ''+'' then
                   (if all_digits 10 ds then Some (int (digits_val 10 ds)) else None)
                 else if d = CHR ''-'' then
                   (if all_digits 10 ds then Some (- int (digits_val 10 ds)) else None)
                 else if all_digits 10 r then Some (int (digits_val 10 r))
                 else None)
          else None)"

text \<open>StrUnsignedDecimalLiteral.\<close>

definition unsigned_decimal :: "string \<Rightarrow> jsnum" where
  "unsigned_decimal s =
     (if s = ''Infinity'' then PosInf
      else
        let ip = takeWhile isDigit s; r = dropWhile isDigit s in
        case r of
          [] \<Rightarrow> if ip = [] then NaN else Fin (of_nat (digits_val 10 ip))
        | c # r' \<Rightarrow>
            if c = CHR ''.'' then
              (let fp = takeWhile isDigit r'; r'' = dropWhile isDigit r' in
               if ip = [] \<and> fp = [] then NaN
               else (case exponent_part r'' of
                       None \<Rightarrow> NaN
                     | Some e \<Rightarrow>
                         Fin (of_nat (digits_val 10 (ip @ fp)) * pow10 (e - int (length fp)))))
            else if ip = [] then NaN
            else (case exponent_part r of
                    None \<Rightarrow> NaN
                  | Some e \<Rightarrow> Fin (of_nat (digits_val 10 ip) * pow10 e)))"

definition negate :: "jsnum \<Rightarrow> jsnum" where
  "negate x = (case x of NaN \<Rightarrow> NaN | PosInf \<Rightarrow> NegInf | NegInf \<Rightarrow> PosInf | Fin r \<Rightarrow> Fin (- r))"

definition non_decimal :: "nat \<Rightarrow> string \<Rightarrow> jsnum" where
  "non_decimal b ds = (if all_digits b ds then Fin (of_nat (digits_val b ds)) else NaN)"

text \<open>\<open>Number(s)\<close> on a string: StringToNumber.\<close>

definition Number :: "string \<Rightarrow> jsnum" where
  "Number s =
     (let t = trim s in
      if t = [] then Fin 0
      else if is_prefix ''0x'' t \<or> is_prefix ''0X'' t then non_decimal 16 (drop 2 t)
      else if is_prefix ''0o'' t \<or> is_prefix ''0O'' t then non_decimal 8 (drop 2 t)
      else if is_prefix ''0b'' t \<or> is_prefix ''0B'' t then non_decimal 2 (drop 2 t)
      else if is_prefix ''+'' t then unsigned_decimal (drop 1 t)
      else if is_prefix ''-'' t then negate (unsigned_decimal (drop 1 t))
      else unsigned_decimal t)"

text \<open>
  \<open>parseInt(s, 10)\<close>: the longest decimal prefix after white space and a sign. The
  value is kept exact; it is the program's value up to \<open>2^53\<close>.
\<close>

definition parseInt10 :: "string \<Rightarrow> jsnum" where
  "parseInt10 s =
     (let t = trimStart s;
          neg = is_prefix ''-'' t;
          u = (if is_prefix ''+'' t \<or> is_prefix ''-'' t then drop 1 t else t);
          ds = takeWhile isDigit u in
      if ds = [] then NaN
      else if neg then Fin (- of_nat (digits_val 10 ds))
      else Fin (of_nat (digits_val 10 ds)))"

definition js_sub :: "jsnum \<Rightarrow> jsnum \<Rightarrow> jsnum" where
  "js_sub a b =
     (case (a, b) of
        (Fin x, Fin y) \<Rightarrow> Fin (x - y)
      | (Fin x, PosInf) \<Rightarrow> NegInf
      | (Fin x, NegInf) \<Rightarrow> PosInf
      | (PosInf, Fin y) \<Rightarrow> PosInf
      | (PosInf, NegInf) \<Rightarrow> PosInf
      | (NegInf, Fin y) \<Rightarrow> NegInf
      | (NegInf, PosInf) \<Rightarrow> NegInf
      | _ \<Rightarrow> NaN)"

section \<open>Date objects\<close>

text \<open>
  The time value of a Date is NaN (\<open>None\<close>, an Invalid Date) or an integral number of
  milliseconds since the epoch. The definitions are the abstract operations of the
  language standard, in exact integer arithmetic. The server's local time zone is
  taken to be UTC, the zone the program itself assumes when it reads the current time
  with \<open>utcToZonedTime(new Date(), 'UTC')\<close>: local time is the time value.
\<close>

type_synonym time_value = "int option"

definition msPerSecond :: int where "msPerSecond = 1000"
definition msPerMinute :: int where "msPerMinute = 60000"
definition msPerHour :: int where "msPerHour = 3600000"
definition msPerDay :: int where "msPerDay = 86400000"

definition js_trunc :: "rat \<Rightarrow> int" where
  "js_trunc r = (if 0 \<le> r then \<lfloor>r\<rfloor> else - \<lfloor>- r\<rfloor>)"

text \<open>ToIntegerOrInfinity of a finite Number; \<open>None\<close> for NaN and the infinities.\<close>

definition to_integer :: "jsnum \<Rightarrow> int option" where
  "to_integer x = (case x of Fin r \<Rightarrow> Some (js_trunc r) | _ \<Rightarrow> None)"

definition Day :: "int \<Rightarrow> int" where
  "Day t = t div msPerDay"

definition DaysInYear :: "int \<Rightarrow> int" where
  "DaysInYear y =
     (if y mod 4 \<noteq> 0 then 365
      else if y mod 100 \<noteq> 0 then 366
      else if y mod 400 \<noteq> 0 then 365
      else 366)"

definition DayFromYear :: "int \<Rightarrow> int" where
  "DayFromYear y =
     365 * (y - 1970) + (y - 1969) div 4 - (y - 1901) div 100 + (y - 1601) div 400"

definition TimeFromYear :: "int \<Rightarrow> int" where
  "TimeFromYear y = msPerDay * DayFromYear y"

text \<open>
  YearFromTime is the largest year whose start is not after \<open>t\<close>; it is computed from
  the mean year length of 365.2425 days, corrected by at most one year.
\<close>

definition YearFromTime :: "int \<Rightarrow> int" where
  "YearFromTime t =
     (let y = t div 31556952000 + 1970 in
      if t < TimeFromYear y then y - 1
      else if TimeFromYear y + msPerDay * DaysInYear y \<le> t then y + 1
      else y)"

definition InLeapYear :: "int \<Rightarrow> int" where
  "InLeapYear t = (if DaysInYear (YearFromTime t) = 366 then 1 else 0)"

definition DayWithinYear :: "int \<Rightarrow> int" where
  "DayWithinYear t = Day t - DayFromYear (YearFromTime t)"

text \<open>The day within the year on which month \<open>m\<close> (0 to 11) starts.\<close>

definition month_start :: "int \<Rightarrow> int \<Rightarrow> int" where
  "month_start leap m =
     (if m = 0 then 0
      else if m = 1 then 31
      else if m = 2 then 59 + leap
      else if m = 3 then 90 + leap
      else if m = 4 then 120 + leap
      else if m = 5 then 151 + leap
      else if m = 6 then 181 + leap
      else if m = 7 then 212 + leap
      else if m = 8 then 243 + leap
      else if m = 9 then 273 + leap
      else if m = 10 then 304 + leap
      else 334 + leap)"

definition month_of_day :: "int \<Rightarrow> int \<Rightarrow> int" where
  "month_of_day leap d =
     (if d < 31 then 0
      else if d < 59 + leap then 1
      else if d < 90 + leap then 2
      else if d < 120 + leap then 3
      else if d < 151 + leap then 4
      else if d < 181 + leap then 5
      else if d < 212 + leap then 6
      else if d < 243 + leap then 7
      else if d < 273 + leap then 8
      else if d < 304 + leap then 9
      else if d < 334 + leap then 10
      else 11)"

definition MonthFromTime :: "int \<Rightarrow> int" where
  "MonthFromTime t = month_of_day (InLeapYear t) (DayWithinYear t)"

definition DateFromTime :: "int \<Rightarrow> int" where
  "DateFromTime t = DayWithinYear t - month_start (InLeapYear t) (MonthFromTime t) + 1"

definition HourFromTime :: "int \<Rightarrow> int" where
  "HourFromTime t = (t div msPerHour) mod 24"

definition MinFromTime :: "int \<Rightarrow> int" where
  "MinFromTime t = (t div msPerMinute) mod 60"

definition MakeTime :: "jsnum \<Rightarrow> jsnum \<Rightarrow> jsnum \<Rightarrow> jsnum \<Rightarrow> int option" where
  "MakeTime hour minute sec ms =
     do { h \<leftarrow> to_integer hour;
          m \<leftarrow> to_integer minute;
          s \<leftarrow> to_integer sec;
          milli \<leftarrow> to_integer ms;
          Some (h * msPerHour + m * msPerMinute + s * msPerSecond + milli) }"

definition MakeDay :: "jsnum \<Rightarrow> jsnum \<Rightarrow> jsnum \<Rightarrow> int option" where
  "MakeDay year month date =
     do { y \<leftarrow> to_integer year;
          m \<leftarrow> to_integer month;
          dt \<leftarrow> to_integer date;
          let ym = y + m div 12;
          let mn = m mod 12;
          let leap = (if DaysInYear ym = 366 then 1 else 0);
          Some (DayFromYear ym + month_start leap mn + dt - 1) }"

definition MakeDate :: "int option \<Rightarrow> int option \<Rightarrow> int option" where
  "MakeDate day time = do { d \<leftarrow> day; t \<leftarrow> time; Some (d * msPerDay + t) }"

definition TimeClip :: "int option \<Rightarrow> time_value" where
  "TimeClip time =
     do { t \<leftarrow> time;
          if \<bar>t\<bar> > 8640000000000000 then None else Some t }"

definition MakeFullYear :: "jsnum \<Rightarrow> jsnum" where
  "MakeFullYear year =
     (case year of
        Fin r \<Rightarrow>
          (let truncated = js_trunc r in
           if 0 \<le> truncated \<and> truncated \<le> 99 then Fin (of_int (1900 + truncated))
           else Fin (of_int truncated))
      | _ \<Rightarrow> year)"

text \<open>\<open>new Date(year, month, date, hours, minutes, seconds, ms)\<close>.\<close>

definition new_Date :: "jsnum \<Rightarrow> jsnum \<Rightarrow> jsnum \<Rightarrow> jsnum \<Rightarrow> jsnum \<Rightarrow> jsnum \<Rightarrow> jsnum \<Rightarrow> time_value" where
  "new_Date year month date hours minutes seconds ms =
     TimeClip (MakeDate (MakeDay (MakeFullYear year) month date)
                        (MakeTime hours minutes seconds ms))"

section \<open>Formatting with date-fns\<close>

definition digit_char :: "nat \<Rightarrow> char" where
  "digit_char n = char_of (48 + n)"

fun nat_to_string :: "nat \<Rightarrow> string" where
  "nat_to_string n =
     (if n < 10 then [digit_char n]
      else nat_to_string (n div 10) @ [digit_char (n mod 10)])"

declare nat_to_string.simps [simp del]

definition addLeadingZeros :: "int \<Rightarrow> nat \<Rightarrow> string" where
  "addLeadingZeros number targetLength =
     (let sign = (if number < 0 then ''-'' else []);
          output = nat_to_string (nat \<bar>number\<bar>) in
      sign @ replicate (targetLength - length output) CHR ''0'' @ output)"

text \<open>
  \<open>format(date, 'yyyyMMddHHmm')\<close>; it throws a RangeError on an Invalid Date
  (\<open>None\<close>). The year token prints year 0 and the years before it as 1 minus the year.
\<close>

definition formatMinute :: "int \<Rightarrow> string" where
  "formatMinute t =
     (let signedYear = YearFromTime t;
          year = (if signedYear > 0 then signedYear else 1 - signedYear) in
      addLeadingZeros year 4
      @ addLeadingZeros (MonthFromTime t + 1) 2
      @ addLeadingZeros (DateFromTime t) 2
      @ addLeadingZeros (HourFromTime t) 2
      @ addLeadingZeros (MinFromTime t) 2)"

definition format :: "time_value \<Rightarrow> string option" where
  "format d = map_option formatMinute d"

text \<open>\<open>utcToZonedTime(d, 'UTC')\<close>: a Date whose local reading is the UTC reading of \<open>d\<close>.\<close>

definition utcToZonedTime_UTC :: "time_value \<Rightarrow> time_value" where
  "utcToZonedTime_UTC d = d"

section \<open>The timestamp of a directory name\<close>

definition convertTimestampToDate :: "string \<Rightarrow> time_value" where
  "convertTimestampToDate timestamp =
     new_Date (Number (slice timestamp 0 4))
              (js_sub (Number (slice timestamp 4 6)) (Fin 1))
              (Number (slice timestamp 6 8))
              (Number (slice timestamp 8 10))
              (Number (slice timestamp 10 12))
              (Number (slice timestamp 12 14))
              (Number (slice timestamp 14 17))"

section \<open>The query window\<close>

text \<open>
  The \<open>try\<close> block of \<open>getImageAndInference\<close> that computes \<open>startTime\<close> and
  \<open>endTime\<close>. \<open>now\<close> is the time value of \<open>new Date()\<close>. \<open>None\<close> stands for an
  exception inside the block, which the \<open>catch\<close> turns into the directory-name error.
\<close>

definition resolveWindow :: "string \<Rightarrow> int \<Rightarrow> (string \<times> string) option" where
  "resolveWindow outputSubDir now =
     do { let startDate = convertTimestampToDate outputSubDir;
          startTime \<leftarrow> format startDate;
          let tenHoursLaterStartDate =
                TimeClip (map_option (\<lambda>t. t + 10 * 60 * 60 * 1000) startDate);
          tenHoursLaterTimestamp \<leftarrow> format tenHoursLaterStartDate;
          let currentDate = utcToZonedTime_UTC (Some now);
          currentTimestamp \<leftarrow> format currentDate;
          let endTime = (if js_lt tenHoursLaterTimestamp currentTimestamp
                         then tenHoursLaterTimestamp else currentTimestamp);
          Some (startTime, endTime) }"

section \<open>Retrieval of images and inference results\<close>

text \<open>
  An error object is either made by \<open>new Error(message)\<close>, which has no \<open>response\<close>
  field, or thrown by the remote client with a \<open>response\<close> whose \<open>data.message\<close> is
  the given string.
\<close>

datatype js_error = Error string | ResponseError string

record image =
  img_name :: string
  img_contents :: string

text \<open>
  An entry of the result list of an inference lookup; \<open>inf_O\<close> is its field
  \<open>inference_result.Inferences[0].O\<close>, which may be missing.
\<close>

record inference_entry =
  inf_O :: "string option"

record inference_response =
  res_status :: int
  res_response_data :: string
  res_data :: "inference_entry list"

record output_record =
  out_image :: string
  out_inferenceData :: string
  out_timestamp :: string

text \<open>
  The remote client and the decoder are parameters. A remote call returns its
  response or throws. \<open>deserialize\<close> stands for decoding the base64 payload,
  \<open>deserializeObjectDetection\<close> and \<open>JSON.stringify\<close>: it returns the JSON text or
  throws an error with a message (\<open>Inl\<close>).
\<close>

record console =
  createInstance_ok :: bool
  getImages ::
    "string \<Rightarrow> string \<Rightarrow> jsnum \<Rightarrow> nat \<Rightarrow> string \<Rightarrow> string \<Rightarrow> string \<Rightarrow> js_error + image list"
  getInferenceResults :: "string \<Rightarrow> nat \<Rightarrow> nat \<Rightarrow> string \<Rightarrow> js_error + inference_response"
  deserialize :: "string \<Rightarrow> string + string"

text \<open>\<open>!x\<close> for a string that may be undefined.\<close>

definition falsy :: "string option \<Rightarrow> bool" where
  "falsy x = (case x of None \<Rightarrow> True | Some s \<Rightarrow> s = [])"

text \<open>The body of the \<open>for\<close> loop, for the image \<open>inputTensor\<close>.\<close>

definition process_image :: "console \<Rightarrow> string \<Rightarrow> image \<Rightarrow> js_error + output_record" where
  "process_image client deviceId inputTensor =
     (let timestamp = replace ''.jpg'' [] (img_name inputTensor);
          base64Img = ''data:image/jpg;base64,'' @ img_contents inputTensor in
      case getInferenceResults client deviceId 1 1 timestamp of
        Inl err \<Rightarrow> Inl err
      | Inr resInference \<Rightarrow>
          if res_status resInference \<noteq> 200 then
            Inl (Error (res_response_data resInference))
          else
            (case res_data resInference of
               [] \<Rightarrow> Inl (Error ''Cannot get inference results.'')
             | entry # _ \<Rightarrow>
                 (case inf_O entry of
                    None \<Rightarrow> Inl (Error ''Cannot get inference results.'')
                  | Some payload \<Rightarrow>
                      if payload = [] then Inl (Error ''Cannot get inference results.'')
                      else
                        (case deserialize client payload of
                           Inl message \<Rightarrow> Inl (Error message)
                         | Inr inferenceData \<Rightarrow>
                             Inr \<lparr>out_image = base64Img, out_inferenceData = inferenceData,
                                  out_timestamp = timestamp\<rparr>))))"

text \<open>The loop over the images, with the list built so far.\<close>

fun image_loop :: "console \<Rightarrow> string \<Rightarrow> image list \<Rightarrow> output_record list \<Rightarrow> js_error + output_record list" where
  "image_loop client deviceId [] outputList = Inr outputList"
| "image_loop client deviceId (inputTensor # images) outputList =
     (case process_image client deviceId inputTensor of
        Inl err \<Rightarrow> Inl err
      | Inr out \<Rightarrow> image_loop client deviceId images (outputList @ [out]))"

definition getImageAndInference ::
  "console \<Rightarrow> int \<Rightarrow> string \<Rightarrow> string \<Rightarrow> jsnum \<Rightarrow> js_error + output_record list" where
  "getImageAndInference client now deviceId outputSubDir numberOfImages =
     (if \<not> createInstance_ok client then Inl (Error ''Wrong setting. Check the settings.'')
      else
        case resolveWindow outputSubDir now of
          None \<Rightarrow>
            Inl (Error ''Cannot parse image directory name. Check that the directory name is correct date format.'')
        | Some (startTime, endTime) \<Rightarrow>
            (case getImages client deviceId outputSubDir numberOfImages 0 ''DESC''
                    startTime endTime of
               Inl err \<Rightarrow> Inl err
             | Inr images \<Rightarrow> image_loop client deviceId images []))"

section \<open>The request handler\<close>

text \<open>A query parameter is a string or, when it is given several times, an array.\<close>

datatype query_value = Str string | Arr "string list"

record request =
  req_method :: string
  q_deviceId :: "query_value option"
  q_imagePath :: "query_value option"
  q_numberOfImages :: "query_value option"

datatype body = Message string | Json "output_record list"

record response =
  http_status :: nat
  http_body :: body

definition truthy :: "query_value option \<Rightarrow> bool" where
  "truthy q = (case q of None \<Rightarrow> False | Some (Str s) \<Rightarrow> s \<noteq> [] | Some (Arr xs) \<Rightarrow> True)"

fun join :: "string list \<Rightarrow> string" where
  "join [] = []"
| "join [x] = x"
| "join (x # y # ys) = x @ '','' @ join (y # ys)"

definition toString :: "query_value \<Rightarrow> string" where
  "toString v = (case v of Str s \<Rightarrow> s | Arr xs \<Rightarrow> join xs)"

definition handler :: "console \<Rightarrow> int \<Rightarrow> request \<Rightarrow> response" where
  "handler client now req =
     (if req_method req \<noteq> ''GET'' then
        \<lparr>http_status = 405, http_body = Message ''The API server only accepts GET requests.''\<rparr>
      else if \<not> truthy (q_deviceId req) then
        \<lparr>http_status = 400, http_body = Message ''Device ID is not specified.''\<rparr>
      else
        let deviceId = (if truthy (q_deviceId req)
                        then (case q_deviceId req of Some v \<Rightarrow> toString v | None \<Rightarrow> [])
                        else []);
            outputSubDir = (if truthy (q_imagePath req)
                            then (case q_imagePath req of Some v \<Rightarrow> toString v | None \<Rightarrow> [])
                            else []);
            numberOfImages = (if truthy (q_numberOfImages req)
                              then (case q_numberOfImages req of
                                      Some v \<Rightarrow> parseInt10 (toString v) | None \<Rightarrow> NaN)
                              else Fin 5) in
        case getImageAndInference client now deviceId outputSubDir numberOfImages of
          Inr result \<Rightarrow> \<lparr>http_status = 200, http_body = Json result\<rparr>
        | Inl (ResponseError message) \<Rightarrow> \<lparr>http_status = 500, http_body = Message message\<rparr>
        | Inl (Error message) \<Rightarrow> \<lparr>http_status = 500, http_body = Message message\<rparr>)"

section \<open>Reference notions and test fixtures\<close>

text \<open>A file name without a final \<open>.jpg\<close>, and the occurrence of a pattern in a string.\<close>

definition strip_jpg_extension :: "string \<Rightarrow> string" where
  "strip_jpg_extension name =
     (if is_prefix (rev ''.jpg'') (rev name) then take (length name - 4) name else name)"

fun contains :: "string \<Rightarrow> string \<Rightarrow> bool" where
  "contains pat [] = (pat = [])"
| "contains pat (c # cs) = (is_prefix pat (c # cs) \<or> contains pat cs)"


text \<open>
  A remote service that lists the given images and answers an inference lookup from a
  table indexed by timestamp; the decoder returns its payload unchanged.
\<close>

definition test_console :: "image list \<Rightarrow> (string \<times> inference_response) list \<Rightarrow> console" where
  "test_console images table =
     \<lparr>createInstance_ok = True,
      getImages = (\<lambda>deviceId subDir n skip orderBy startTime endTime. Inr images),
      getInferenceResults =
        (\<lambda>deviceId n raw ts.
           case map_of table ts of
             Some res \<Rightarrow> Inr res
           | None \<Rightarrow> Inl (ResponseError ''Not found.'')),
      deserialize = (\<lambda>payload. Inr payload)\<rparr>"

definition ok_response :: "string \<Rightarrow> inference_response" where
  "ok_response payload =
     \<lparr>res_status = 200, res_response_data = [], res_data = [\<lparr>inf_O = Some payload\<rparr>]\<rparr>"

definition error_response :: "int \<Rightarrow> string \<Rightarrow> inference_response" where
  "error_response code message =
     \<lparr>res_status = code, res_response_data = message, res_data = []\<rparr>"


text \<open>The number whose decimal digits are the calendar reading \<open>yyyyMMddHHmm\<close> of \<open>t\<close>.\<close>

definition calendar_key :: "int \<Rightarrow> int" where
  "calendar_key t =
     YearFromTime t * 100000000 + (MonthFromTime t + 1) * 1000000 + DateFromTime t * 10000
     + HourFromTime t * 100 + MinFromTime t"

section \<open>Evaluation on concrete inputs\<close>

lemma nat_to_string_small: "n < 10 \<Longrightarrow> nat_to_string n = [digit_char n]"
  by (simp add: nat_to_string.simps)

lemma nat_to_string_large:
  "\<not> n < 10 \<Longrightarrow> nat_to_string n = nat_to_string (n div 10) @ [digit_char (n mod 10)]"
  by (subst nat_to_string.simps) simp

lemmas number_eval = Number_def trim_def trimStart_def isWhiteSpace_def unsigned_decimal_def
  isDigit_def digits_val_def digit_val_def slice_def exponent_part_def all_digits_def pow10_def
  non_decimal_def negate_def js_sub_def

lemmas date_eval = new_Date_def MakeFullYear_def MakeDay_def MakeTime_def MakeDate_def
  TimeClip_def to_integer_def js_trunc_def DayFromYear_def DaysInYear_def month_start_def
  msPerDay_def msPerHour_def msPerMinute_def msPerSecond_def

lemmas format_eval = format_def formatMinute_def YearFromTime_def TimeFromYear_def
  DayFromYear_def DaysInYear_def MonthFromTime_def DateFromTime_def HourFromTime_def
  MinFromTime_def InLeapYear_def DayWithinYear_def Day_def month_of_day_def month_start_def
  addLeadingZeros_def nat_to_string_small nat_to_string_large digit_char_def char_of_eq_iff
  msPerDay_def msPerHour_def msPerMinute_def msPerSecond_def

lemma convert_example: "convertTimestampToDate ''20230126050000000'' = Some 1674709200000"
  by (simp add: convertTimestampToDate_def number_eval date_eval)

lemma format_example_start: "formatMinute 1674709200000 = ''202301260500''"
  by (simp add: format_eval)

lemma format_example_end: "formatMinute 1674745200000 = ''202301261500''"
  by (simp add: format_eval)

lemma format_example_now: "formatMinute 1674720000000 = ''202301260800''"
  by (simp add: format_eval)

lemma window_example:
  "resolveWindow ''20230126050000000'' 1674720000000 = Some (''202301260500'', ''202301260800'')"
  by (simp add: resolveWindow_def convert_example format_def TimeClip_def utcToZonedTime_UTC_def
      format_example_start format_example_end format_example_now)

section \<open>The retrieval loop\<close>

lemma image_loop_append:
  "image_loop client deviceId (xs @ ys) acc =
     (case image_loop client deviceId xs acc of
        Inl err \<Rightarrow> Inl err
      | Inr acc' \<Rightarrow> image_loop client deviceId ys acc')"
  by (induction xs arbitrary: acc) (auto split: sum.splits)

lemma process_image_bad_status:
  assumes "getInferenceResults client deviceId 1 1 (replace ''.jpg'' [] (img_name img)) = Inr res"
    and "res_status res \<noteq> 200"
  shows "process_image client deviceId img = Inl (Error (res_response_data res))"
  using assms by (simp add: process_image_def)

lemma process_image_fields:
  assumes "process_image client deviceId img = Inr out"
  shows "out_timestamp out = replace ''.jpg'' [] (img_name img)
       \<and> out_image out = ''data:image/jpg;base64,'' @ img_contents img"
  using assms
  by (auto simp: process_image_def Let_def split: sum.splits if_splits list.splits option.splits)

lemma image_loop_fields:
  assumes "image_loop client deviceId images acc = Inr outs"
  shows "map out_timestamp outs
           = map out_timestamp acc @ map (\<lambda>i. replace ''.jpg'' [] (img_name i)) images
       \<and> map out_image outs
           = map out_image acc @ map (\<lambda>i. ''data:image/jpg;base64,'' @ img_contents i) images"
  using assms
proof (induction images arbitrary: acc)
  case Nil
  then show ?case by simp
next
  case (Cons img images)
  from Cons.prems obtain out where out: "process_image client deviceId img = Inr out"
    and rest: "image_loop client deviceId images (acc @ [out]) = Inr outs"
    by (auto split: sum.splits)
  from Cons.IH [OF rest] process_image_fields [OF out] show ?case by simp
qed

lemma is_prefix_straddle:
  assumes "is_prefix ''.jpg'' (s @ ''.jpg'')" and "s \<noteq> []"
  shows "is_prefix ''.jpg'' s"
proof -
  obtain a s1 where s: "s = a # s1" using assms(2) by (cases s) auto
  with assms(1) have a: "a = CHR ''.''" and p1: "is_prefix ''jpg'' (s1 @ ''.jpg'')"
    by simp_all
  obtain b s2 where s1: "s1 = b # s2" using p1 by (cases s1) auto
  with p1 have b: "b = CHR ''j''" and p2: "is_prefix ''pg'' (s2 @ ''.jpg'')"
    by simp_all
  obtain c s3 where s2: "s2 = c # s3" using p2 by (cases s2) auto
  with p2 have c: "c = CHR ''p''" and p3: "is_prefix ''g'' (s3 @ ''.jpg'')"
    by simp_all
  obtain d s4 where s3: "s3 = d # s4" using p3 by (cases s3) auto
  with p3 have d: "d = CHR ''g''" by simp
  show ?thesis by (simp add: s s1 s2 s3 a b c d)
qed

lemma replace_stem:
  "\<not> contains ''.jpg'' stem \<Longrightarrow> replace ''.jpg'' [] (stem @ ''.jpg'') = stem"
proof (induction stem)
  case Nil
  then show ?case by simp
next
  case (Cons c stem)
  from Cons.prems have np: "\<not> is_prefix ''.jpg'' (c # stem)"
    and nc: "\<not> contains ''.jpg'' stem" by simp_all
  from np is_prefix_straddle [of "c # stem"]
  have "\<not> is_prefix ''.jpg'' (c # stem @ ''.jpg'')" by auto
  with Cons.IH [OF nc] show ?case by auto
qed

text \<open>
  C3. When the client is created, the window resolves and the listing returns no image,
  the retrieval returns the empty list and no error.
\<close>

theorem retrieve_empty_listing:
  assumes "createInstance_ok client"
    and "resolveWindow outputSubDir now = Some (startTime, endTime)"
    and "getImages client deviceId outputSubDir numberOfImages 0 ''DESC'' startTime endTime = Inr []"
  shows "getImageAndInference client now deviceId outputSubDir numberOfImages = Inr []"
  using assms by (simp add: getImageAndInference_def)

theorem retrieve_empty_listing_witness:
  "getImageAndInference (test_console [] []) 1674720000000 ''device'' ''20230126050000000'' (Fin 5)
     = Inr []"
  using retrieve_empty_listing [of "test_console [] []" "''20230126050000000''" 1674720000000
      "''202301260500''" "''202301260800''" "''device''" "Fin 5"]
  by (simp add: window_example test_console_def)

text \<open>
  C2. When the inference lookup for an image of the listing returns a status other than
  200, the retrieval returns no list at all; and when the loop reaches that image (the
  images before it were processed), the retrieval fails with an error whose message is
  the remote response's: the records assembled for the earlier images are dropped.
\<close>

theorem retrieve_aborts_on_bad_status:
  assumes "createInstance_ok client"
    and "resolveWindow outputSubDir now = Some (startTime, endTime)"
    and "getImages client deviceId outputSubDir numberOfImages 0 ''DESC'' startTime endTime
           = Inr (earlier @ img # later)"
    and "getInferenceResults client deviceId 1 1 (replace ''.jpg'' [] (img_name img)) = Inr res"
    and "res_status res \<noteq> 200"
  shows "(\<exists>err. getImageAndInference client now deviceId outputSubDir numberOfImages = Inl err)
       \<and> (\<forall>assembled. image_loop client deviceId earlier [] = Inr assembled \<longrightarrow>
            getImageAndInference client now deviceId outputSubDir numberOfImages
              = Inl (Error (res_response_data res)))"
  using assms
  by (cases "image_loop client deviceId earlier []")
     (simp_all add: getImageAndInference_def image_loop_append process_image_bad_status)

theorem retrieve_aborts_on_bad_status_witness:
  "getImageAndInference
     (test_console
        [\<lparr>img_name = ''20230126053344873.jpg'', img_contents = ''AAAA''\<rparr>,
         \<lparr>img_name = ''20230126052344873.jpg'', img_contents = ''BBBB''\<rparr>]
        [(''20230126053344873'', ok_response ''AQID''),
         (''20230126052344873'', error_response 500 ''Internal Server Error'')])
     1674720000000 ''device'' ''20230126050000000'' (Fin 2)
   = Inl (Error ''Internal Server Error'')"
  using retrieve_aborts_on_bad_status
    [of "test_console
        [\<lparr>img_name = ''20230126053344873.jpg'', img_contents = ''AAAA''\<rparr>,
         \<lparr>img_name = ''20230126052344873.jpg'', img_contents = ''BBBB''\<rparr>]
        [(''20230126053344873'', ok_response ''AQID''),
         (''20230126052344873'', error_response 500 ''Internal Server Error'')]"
      "''20230126050000000''" 1674720000000 "''202301260500''" "''202301260800''"
      "''device''" "Fin 2"
      "[\<lparr>img_name = ''20230126053344873.jpg'', img_contents = ''AAAA''\<rparr>]"
      "\<lparr>img_name = ''20230126052344873.jpg'', img_contents = ''BBBB''\<rparr>"
      "[]"
      "error_response 500 ''Internal Server Error''"]
  by (simp add: window_example test_console_def process_image_def ok_response_def
      error_response_def)



section \<open>The order of strings\<close>

lemma js_lt_irrefl: "\<not> js_lt a a"
  by (induction a) auto

lemma js_lt_asym: "js_lt a b \<Longrightarrow> \<not> js_lt b a"
  by (induction a b rule: js_lt.induct) (auto split: if_splits)

section \<open>The window\<close>

lemma resolveWindow_Some:
  assumes "resolveWindow T now = Some (startTime, endTime)"
  obtains t where "convertTimestampToDate T = Some t"
    and "\<bar>t + 36000000\<bar> \<le> 8640000000000000"
    and "startTime = formatMinute t"
    and "endTime = (if js_lt (formatMinute (t + 36000000)) (formatMinute now)
                    then formatMinute (t + 36000000) else formatMinute now)"
  using assms
  by (cases "convertTimestampToDate T")
     (auto simp: resolveWindow_def format_def TimeClip_def utcToZonedTime_UTC_def
           split: if_splits)


lemma format_example_future: "formatMinute 1893456000000 = ''203001010000''"
  by (simp add: format_eval)

lemma format_example_future_end: "formatMinute 1893492000000 = ''203001011000''"
  by (simp add: format_eval)

lemma convert_example_future: "convertTimestampToDate ''20300101000000000'' = Some 1893456000000"
  by (simp add: convertTimestampToDate_def number_eval date_eval)

lemma window_example_future:
  "resolveWindow ''20300101000000000'' 1674720000000 = Some (''203001010000'', ''202301260800'')"
  by (simp add: resolveWindow_def convert_example_future format_def TimeClip_def
      utcToZonedTime_UTC_def format_example_future format_example_future_end format_example_now)

text \<open>
  C9. The window is not checked: there is a start timestamp later than the current
  instant for which a window is returned whose end, the formatted current time, is
  smaller than its start.
\<close>

theorem future_start_window_unchecked:
  "\<exists>T now t startTime endTime.
     convertTimestampToDate T = Some t \<and> now < t
   \<and> resolveWindow T now = Some (startTime, endTime)
   \<and> endTime = formatMinute now \<and> js_lt endTime startTime"
proof -
  have "convertTimestampToDate ''20300101000000000'' = Some 1893456000000
      \<and> (1674720000000 :: int) < 1893456000000
      \<and> resolveWindow ''20300101000000000'' 1674720000000
           = Some (''203001010000'', ''202301260800'')
      \<and> ''202301260800'' = formatMinute 1674720000000
      \<and> js_lt ''202301260800'' ''203001010000''"
    by (simp add: convert_example_future window_example_future format_example_now)
  then show ?thesis by blast
qed

section \<open>Output records\<close>

text \<open>
  When the retrieval succeeds, the output list has one record per listed image, in the
  order of the listing, and the image of a record is the contents after the prefix
  \<open>data:image/jpg;base64,\<close>. The timestamp of a record is the file name with its
  first \<open>.jpg\<close> removed: this is the stem of a name \<open>stem.jpg\<close> whose stem does
  not contain \<open>.jpg\<close>, as with the timestamp names of the remote service.
\<close>

lemma output_records_in_order:
  assumes "resolveWindow outputSubDir now = Some (startTime, endTime)"
    and "getImages client deviceId outputSubDir numberOfImages 0 ''DESC'' startTime endTime
           = Inr images"
    and "getImageAndInference client now deviceId outputSubDir numberOfImages = Inr outs"
  shows "length outs = length images
       \<and> map out_timestamp outs = map (\<lambda>i. replace ''.jpg'' [] (img_name i)) images
       \<and> map out_image outs = map (\<lambda>i. ''data:image/jpg;base64,'' @ img_contents i) images
       \<and> (\<forall>k stem. k < length images \<and> img_name (images ! k) = stem @ ''.jpg''
              \<and> \<not> contains ''.jpg'' stem \<longrightarrow> out_timestamp (outs ! k) = stem)"
proof -
  from assms have loop: "image_loop client deviceId images [] = Inr outs"
    by (simp add: getImageAndInference_def split: if_splits)
  from image_loop_fields [OF loop]
  have ts: "map out_timestamp outs = map (\<lambda>i. replace ''.jpg'' [] (img_name i)) images"
    and im: "map out_image outs = map (\<lambda>i. ''data:image/jpg;base64,'' @ img_contents i) images"
    by simp_all
  from ts have len: "length outs = length images"
    by (metis length_map)
  have "out_timestamp (outs ! k) = stem"
    if "k < length images" and "img_name (images ! k) = stem @ ''.jpg''"
      and "\<not> contains ''.jpg'' stem" for k stem
  proof -
    from that(1) len have "out_timestamp (outs ! k) = map out_timestamp outs ! k" by simp
    also from that(1) have "\<dots> = replace ''.jpg'' [] (img_name (images ! k))"
      by (simp add: ts)
    also from that(2,3) have "\<dots> = stem" by (simp add: replace_stem)
    finally show ?thesis .
  qed
  with len ts im show ?thesis by blast
qed

lemma timestamp_name_stem:
  assumes "list_all isDigit stem"
  shows "replace ''.jpg'' [] (stem @ ''.jpg'') = stem"
proof -
  have "\<not> contains ''.jpg'' s" if "list_all isDigit s" for s
    using that by (induction s) (auto simp: isDigit_def)
  with assms show ?thesis by (simp add: replace_stem)
qed

text \<open>
  C4. The timestamp of an output record is to be the file name without its \<open>.jpg\<close>
  extension. The program removes the first \<open>.jpg\<close> of the name instead of the last:
  for the image \<open>photo.jpg.backup.jpg\<close> the record has the timestamp
  \<open>photo.backup.jpg\<close>, where the name without its extension is
  \<open>photo.jpg.backup\<close>.
\<close>

theorem timestamp_removes_first_jpg:
  "getImageAndInference
     (test_console [\<lparr>img_name = ''photo.jpg.backup.jpg'', img_contents = ''AAAA''\<rparr>]
                   [(''photo.backup.jpg'', ok_response ''AQID'')])
     1674720000000 ''device'' ''20230126050000000'' (Fin 5)
   = Inr [\<lparr>out_image = ''data:image/jpg;base64,AAAA'', out_inferenceData = ''AQID'',
           out_timestamp = ''photo.backup.jpg''\<rparr>]
 \<and> strip_jpg_extension ''photo.jpg.backup.jpg'' = ''photo.jpg.backup''
 \<and> ''photo.backup.jpg'' \<noteq> ''photo.jpg.backup''"
  by (simp add: getImageAndInference_def window_example test_console_def process_image_def
      ok_response_def strip_jpg_extension_def)

section \<open>Digit strings\<close>

lemma isDigit_digit_val: "isDigit c \<longleftrightarrow> digit_val c < 10"
  by (auto simp: isDigit_def digit_val_def Let_def)

lemma isDigit_not_space: "isDigit c \<Longrightarrow> \<not> isWhiteSpace c"
  by (auto simp: isDigit_def isWhiteSpace_def)

lemma trimStart_digits: "list_all isDigit s \<Longrightarrow> trimStart s = s"
  by (cases s) (simp_all add: trimStart_def isDigit_not_space)

lemma trim_digits: "list_all isDigit s \<Longrightarrow> trim s = s"
  by (simp add: trim_def trimStart_digits)

lemma isDigit_literal [simp]:
  "\<not> isDigit CHR ''x''" "\<not> isDigit CHR ''X''" "\<not> isDigit CHR ''o''" "\<not> isDigit CHR ''O''"
  "\<not> isDigit CHR ''b''" "\<not> isDigit CHR ''B''" "\<not> isDigit CHR ''+''" "\<not> isDigit CHR ''-''"
  "\<not> isDigit CHR ''I''"
  by (simp_all add: isDigit_def)

lemma no_prefix_one: "list_all isDigit s \<Longrightarrow> \<not> isDigit b \<Longrightarrow> \<not> is_prefix [b] s"
  by (cases s) auto

lemma no_prefix_two: "list_all isDigit s \<Longrightarrow> \<not> isDigit a \<Longrightarrow> \<not> is_prefix [c, a] s"
proof (cases s)
  case Nil
  then show ?thesis by simp
next
  case (Cons x xs)
  assume "list_all isDigit s" and "\<not> isDigit a"
  with Cons show ?thesis by (cases xs) auto
qed

lemma takeWhile_all: "list_all P s \<Longrightarrow> takeWhile P s = s"
  by (induction s) auto

lemma dropWhile_all: "list_all P s \<Longrightarrow> dropWhile P s = []"
  by (induction s) auto

lemma Number_digits:
  assumes "list_all isDigit s" and "s \<noteq> []"
  shows "Number s = Fin (of_nat (digits_val 10 s))"
proof -
  from assms(1) have inf: "s \<noteq> ''Infinity''" by (cases s) auto
  have pre: "\<not> is_prefix ''0x'' s" "\<not> is_prefix ''0X'' s" "\<not> is_prefix ''0o'' s"
    "\<not> is_prefix ''0O'' s" "\<not> is_prefix ''0b'' s" "\<not> is_prefix ''0B'' s"
    "\<not> is_prefix ''+'' s" "\<not> is_prefix ''-'' s"
    using no_prefix_one [OF assms(1)] no_prefix_two [OF assms(1)] by simp_all
  show ?thesis
    using assms inf pre
    by (simp add: Number_def trim_digits unsigned_decimal_def takeWhile_all dropWhile_all)
qed

text \<open>
  C5. A timestamp made of a four-digit year, two-digit month, day, hour, minute and
  second and a three-digit millisecond is converted by giving the Date constructor the
  decimal values of these seven parts, the month lessened by one.
\<close>

theorem convert_reads_fixed_offsets:
  assumes "length y = 4" and "length mo = 2" and "length d = 2" and "length h = 2"
    and "length mi = 2" and "length s = 2" and "length ms = 3"
    and "list_all isDigit (y @ mo @ d @ h @ mi @ s @ ms)"
  shows "convertTimestampToDate (y @ mo @ d @ h @ mi @ s @ ms) =
           new_Date (Fin (of_nat (digits_val 10 y)))
                    (Fin (of_nat (digits_val 10 mo) - 1))
                    (Fin (of_nat (digits_val 10 d)))
                    (Fin (of_nat (digits_val 10 h)))
                    (Fin (of_nat (digits_val 10 mi)))
                    (Fin (of_nat (digits_val 10 s)))
                    (Fin (of_nat (digits_val 10 ms)))"
proof -
  let ?T = "y @ mo @ d @ h @ mi @ s @ ms"
  have s1: "slice ?T 0 4 = y" using assms(1) by (simp add: slice_def)
  have s2: "slice ?T 4 6 = mo" using assms(1,2) by (simp add: slice_def)
  have s3: "slice ?T 6 8 = d" using assms(1-3) by (simp add: slice_def)
  have s4: "slice ?T 8 10 = h" using assms(1-4) by (simp add: slice_def)
  have s5: "slice ?T 10 12 = mi" using assms(1-5) by (simp add: slice_def)
  have s6: "slice ?T 12 14 = s" using assms(1-6) by (simp add: slice_def)
  have s7: "slice ?T 14 17 = ms" using assms(1-7) by (simp add: slice_def)
  have ne: "y \<noteq> []" "mo \<noteq> []" "d \<noteq> []" "h \<noteq> []" "mi \<noteq> []" "s \<noteq> []" "ms \<noteq> []"
    using assms(1-7) by auto
  from assms(8) have dg: "list_all isDigit y" "list_all isDigit mo" "list_all isDigit d"
    "list_all isDigit h" "list_all isDigit mi" "list_all isDigit s" "list_all isDigit ms"
    by simp_all
  show ?thesis
    unfolding convertTimestampToDate_def s1 s2 s3 s4 s5 s6 s7
    by (simp add: Number_digits dg ne js_sub_def)
qed

theorem convert_reads_fixed_offsets_witness:
  "convertTimestampToDate ''20230126050000000''
     = new_Date (Fin 2023) (Fin 0) (Fin 26) (Fin 5) (Fin 0) (Fin 0) (Fin 0)"
  using convert_reads_fixed_offsets [of "''2023''" "''01''" "''26''" "''05''" "''00''" "''00''" "''000''"]
  by (simp add: isDigit_def digits_val_def digit_val_def)

section \<open>The handler\<close>

text \<open>
  C7, as the claim states it, fails: a request whose \<open>deviceId\<close> is present with
  the empty string as its value is answered 400 and the pipeline is not run.
\<close>

theorem empty_deviceId_counterexample:
  "q_deviceId \<lparr>req_method = ''GET'', q_deviceId = Some (Str []), q_imagePath = None,
                q_numberOfImages = None\<rparr> \<noteq> None
 \<and> handler (test_console [] []) 1674720000000
      \<lparr>req_method = ''GET'', q_deviceId = Some (Str []), q_imagePath = None,
       q_numberOfImages = None\<rparr>
     = \<lparr>http_status = 400, http_body = Message ''Device ID is not specified.''\<rparr>"
  by (simp add: handler_def truthy_def)

text \<open>
  C7, amended. The handler answers 405 when the method is not GET; otherwise 400 when
  \<open>deviceId\<close> is absent or empty; otherwise it runs the pipeline, with the empty
  string for an absent \<open>imagePath\<close> and 5 for an absent or empty \<open>numberOfImages\<close>,
  and answers 200 with the list when the pipeline succeeds and 500 with a message when
  it fails.
\<close>

theorem handler_responses:
  "(req_method req \<noteq> ''GET'' \<longrightarrow> http_status (handler client now req) = 405)
 \<and> (req_method req = ''GET'' \<and> \<not> truthy (q_deviceId req) \<longrightarrow>
      http_status (handler client now req) = 400)
 \<and> (req_method req = ''GET'' \<and> truthy (q_deviceId req) \<longrightarrow>
      (\<exists>d outputSubDir numberOfImages.
         q_deviceId req = Some d
       \<and> (q_imagePath req = None \<longrightarrow> outputSubDir = [])
       \<and> (\<forall>v. q_imagePath req = Some v \<longrightarrow> outputSubDir = toString v)
       \<and> (\<not> truthy (q_numberOfImages req) \<longrightarrow> numberOfImages = Fin 5)
       \<and> (\<forall>v. truthy (q_numberOfImages req) \<and> q_numberOfImages req = Some v \<longrightarrow>
              numberOfImages = parseInt10 (toString v))
       \<and> (\<forall>result.
              getImageAndInference client now (toString d) outputSubDir numberOfImages
                = Inr result \<longrightarrow>
              handler client now req = \<lparr>http_status = 200, http_body = Json result\<rparr>)
       \<and> (\<forall>err.
              getImageAndInference client now (toString d) outputSubDir numberOfImages
                = Inl err \<longrightarrow>
              http_status (handler client now req) = 500
            \<and> (\<exists>message. http_body (handler client now req) = Message message))))"
proof (intro conjI impI)
  assume "req_method req \<noteq> ''GET''"
  then show "http_status (handler client now req) = 405"
    by (simp add: handler_def)
next
  assume "req_method req = ''GET'' \<and> \<not> truthy (q_deviceId req)"
  then show "http_status (handler client now req) = 400"
    by (simp add: handler_def)
next
  assume a: "req_method req = ''GET'' \<and> truthy (q_deviceId req)"
  then obtain d where d: "q_deviceId req = Some d"
    by (cases "q_deviceId req") (auto simp: truthy_def)
  let ?path = "if truthy (q_imagePath req)
               then (case q_imagePath req of Some v \<Rightarrow> toString v | None \<Rightarrow> []) else []"
  let ?n = "if truthy (q_numberOfImages req)
            then (case q_numberOfImages req of Some v \<Rightarrow> parseInt10 (toString v) | None \<Rightarrow> NaN)
            else Fin 5"
  have p1: "q_imagePath req = None \<longrightarrow> ?path = []" by simp
  have p2: "\<forall>v. q_imagePath req = Some v \<longrightarrow> ?path = toString v"
    by (auto simp: truthy_def toString_def split: query_value.splits)
  have n1: "\<not> truthy (q_numberOfImages req) \<longrightarrow> ?n = Fin 5" by simp
  have n2: "\<forall>v. truthy (q_numberOfImages req) \<and> q_numberOfImages req = Some v \<longrightarrow>
              ?n = parseInt10 (toString v)" by auto
  have ok: "\<forall>result. getImageAndInference client now (toString d) ?path ?n = Inr result \<longrightarrow>
              handler client now req = \<lparr>http_status = 200, http_body = Json result\<rparr>"
    using a d by (simp add: handler_def Let_def)
  have ko: "\<forall>err. getImageAndInference client now (toString d) ?path ?n = Inl err \<longrightarrow>
              http_status (handler client now req) = 500
            \<and> (\<exists>message. http_body (handler client now req) = Message message)"
  proof (intro allI impI)
    fix err
    assume "getImageAndInference client now (toString d) ?path ?n = Inl err"
    with a d show "http_status (handler client now req) = 500
            \<and> (\<exists>message. http_body (handler client now req) = Message message)"
      by (cases err) (simp_all add: handler_def Let_def)
  qed
  show "\<exists>d outputSubDir numberOfImages.
         q_deviceId req = Some d
       \<and> (q_imagePath req = None \<longrightarrow> outputSubDir = [])
       \<and> (\<forall>v. q_imagePath req = Some v \<longrightarrow> outputSubDir = toString v)
       \<and> (\<not> truthy (q_numberOfImages req) \<longrightarrow> numberOfImages = Fin 5)
       \<and> (\<forall>v. truthy (q_numberOfImages req) \<and> q_numberOfImages req = Some v \<longrightarrow>
              numberOfImages = parseInt10 (toString v))
       \<and> (\<forall>result.
              getImageAndInference client now (toString d) outputSubDir numberOfImages
                = Inr result \<longrightarrow>
              handler client now req = \<lparr>http_status = 200, http_body = Json result\<rparr>)
       \<and> (\<forall>err.
              getImageAndInference client now (toString d) outputSubDir numberOfImages
                = Inl err \<longrightarrow>
              http_status (handler client now req) = 500
            \<and> (\<exists>message. http_body (handler client now req) = Message message))"
    by (rule exI [of _ d], rule exI [of _ ?path], rule exI [of _ ?n])
       (intro conjI d p1 p2 n1 n2 ok ko)
qed

lemma pipeline_example:
  "getImageAndInference (test_console [] []) 1674720000000 ''device'' ''20230126050000000'' (Fin 5)
     = Inr []"
  by (simp add: getImageAndInference_def window_example test_console_def)

theorem handler_responses_witness:
  "handler (test_console [] []) 1674720000000
     \<lparr>req_method = ''GET'', q_deviceId = Some (Str ''device''),
      q_imagePath = Some (Str ''20230126050000000''), q_numberOfImages = None\<rparr>
   = \<lparr>http_status = 200, http_body = Json []\<rparr>"
  using handler_responses
    [of "\<lparr>req_method = ''GET'', q_deviceId = Some (Str ''device''),
          q_imagePath = Some (Str ''20230126050000000''), q_numberOfImages = None\<rparr>"
        "test_console [] []" 1674720000000]
  by (auto simp: truthy_def toString_def pipeline_example)

section \<open>Which directory names are rejected\<close>






lemma digits_val_snoc: "digits_val b (s @ [c]) = digits_val b s * b + digit_val c"
  by (simp add: digits_val_def)

lemma digits_val_bound: "list_all isDigit s \<Longrightarrow> digits_val 10 s < 10 ^ length s"
proof (induction s rule: rev_induct)
  case Nil
  then show ?case by (simp add: digits_val_def)
next
  case (snoc c s)
  then have "digits_val 10 s < 10 ^ length s" and "digit_val c < 10"
    by (simp_all add: isDigit_digit_val)
  then show ?case by (simp add: digits_val_snoc)
qed


lemma int_div_bounds:
  fixes a c :: int
  assumes "0 < c"
  shows "c * (a div c) \<le> a" and "a < c * (a div c) + c"
  using assms mult_div_mod_eq [of c a] pos_mod_bound [of c a] pos_mod_sign [of c a]
  by linarith+

lemma DayFromYear_enclosure:
  "146097 * y - 287811596 \<le> 400 * DayFromYear y"
  "400 * DayFromYear y \<le> 146097 * y - 287810501"
proof -
  define q4 where "q4 = (y - 1969) div 4"
  define q100 where "q100 = (y - 1901) div 100"
  define q400 where "q400 = (y - 1601) div 400"
  have d: "DayFromYear y = 365 * (y - 1970) + q4 - q100 + q400"
    by (simp add: DayFromYear_def q4_def q100_def q400_def)
  have b: "4 * q4 \<le> y - 1969" "y - 1969 < 4 * q4 + 4"
    "100 * q100 \<le> y - 1901" "y - 1901 < 100 * q100 + 100"
    "400 * q400 \<le> y - 1601" "y - 1601 < 400 * q400 + 400"
    unfolding q4_def q100_def q400_def by (simp_all add: int_div_bounds)
  from b show "146097 * y - 287811596 \<le> 400 * DayFromYear y"
    unfolding d by (simp add: algebra_simps)
  from b show "400 * DayFromYear y \<le> 146097 * y - 287810501"
    unfolding d by (simp add: algebra_simps)
qed









section \<open>The calendar\<close>

lemma int_div_step:
  fixes a c :: int
  assumes "0 < c"
  shows "(a + 1) div c = a div c + (if (a + 1) mod c = 0 then 1 else 0)"
proof -
  define q where "q = a div c"
  define r where "r = a mod c"
  have a: "a = c * q + r" and r: "0 \<le> r" "r < c"
    using assms by (simp_all add: q_def r_def)
  show ?thesis
  proof (cases "r + 1 < c")
    case True
    have "a + 1 = c * q + (r + 1)" using a by simp
    with True r have "(a + 1) div c = q" "(a + 1) mod c = r + 1"
      by (simp_all add: int_div_pos_eq int_mod_pos_eq)
    with r show ?thesis by (simp add: q_def)
  next
    case False
    with r have "r + 1 = c" by simp
    with a have "a + 1 = c * (q + 1) + 0" by (simp add: algebra_simps)
    with assms have "(a + 1) div c = q + 1" "(a + 1) mod c = 0"
      by (simp_all add: int_div_pos_eq int_mod_pos_eq)
    then show ?thesis by (simp add: q_def)
  qed
qed

lemma DayFromYear_Suc: "DayFromYear (y + 1) = DayFromYear y + DaysInYear y"
proof -
  have m: "(y - 1968) mod 4 = 0 \<longleftrightarrow> y mod 4 = 0"
    "(y - 1900) mod 100 = 0 \<longleftrightarrow> y mod 100 = 0"
    "(y - 1600) mod 400 = 0 \<longleftrightarrow> y mod 400 = 0"
    by (simp_all add: mod_eq_0_iff_dvd dvd_diff_left_iff)
  have e: "y + 1 - 1969 = y - 1969 + 1" "y - 1969 + 1 = y - 1968"
    "y + 1 - 1901 = y - 1901 + 1" "y - 1901 + 1 = y - 1900"
    "y + 1 - 1601 = y - 1601 + 1" "y - 1601 + 1 = y - 1600"
    by simp_all
  have a: "(y + 1 - 1969) div 4 = (y - 1969) div 4 + (if y mod 4 = 0 then 1 else 0)"
    unfolding e(1) using int_div_step [of 4 "y - 1969"] unfolding e(2) m by simp
  have b: "(y + 1 - 1901) div 100 = (y - 1901) div 100 + (if y mod 100 = 0 then 1 else 0)"
    unfolding e(3) using int_div_step [of 100 "y - 1901"] unfolding e(4) m by simp
  have c: "(y + 1 - 1601) div 400 = (y - 1601) div 400 + (if y mod 400 = 0 then 1 else 0)"
    unfolding e(5) using int_div_step [of 400 "y - 1601"] unfolding e(6) m by simp
  have "(400::int) dvd y \<Longrightarrow> 100 dvd y" "(100::int) dvd y \<Longrightarrow> 4 dvd y"
    using dvd_trans [of 100 400 y] dvd_trans [of 4 100 y] by simp_all
  then have d: "y mod 400 = 0 \<Longrightarrow> y mod 100 = 0" "y mod 100 = 0 \<Longrightarrow> y mod 4 = 0"
    by (simp_all add: mod_eq_0_iff_dvd)
  have "DayFromYear (y + 1) = 365 * (y + 1 - 1970) + (y + 1 - 1969) div 4
          - (y + 1 - 1901) div 100 + (y + 1 - 1601) div 400"
    by (simp only: DayFromYear_def)
  also have "\<dots> = DayFromYear y + DaysInYear y"
    unfolding a b c DayFromYear_def DaysInYear_def using d by auto
  finally show ?thesis .
qed

lemma DaysInYear_range: "365 \<le> DaysInYear y" "DaysInYear y \<le> 366"
  by (simp_all add: DaysInYear_def)

lemma DayFromYear_mono: "y1 \<le> y2 \<Longrightarrow> DayFromYear y1 \<le> DayFromYear y2"
proof (induction y2 rule: int_ge_induct)
  case base
  show ?case by simp
next
  case (step i)
  from DayFromYear_Suc [of i] DaysInYear_range(1) [of i] step.IH show ?case by linarith
qed

lemma YearFromTime_correct:
  "DayFromYear (YearFromTime t) \<le> Day t" "Day t < DayFromYear (YearFromTime t + 1)"
proof -
  define D where "D = t div 86400000"
  define k where "k = t div 31556952000"
  define P where "P = DayFromYear (k + 1969)"
  define F where "F = DayFromYear (k + 1970)"
  define N where "N = DayFromYear (k + 1971)"
  define M where "M = DayFromYear (k + 1972)"
  define L where "L = DaysInYear (k + 1970)"
  have D: "86400000 * D \<le> t" "t < 86400000 * D + 86400000"
    unfolding D_def by (simp_all add: int_div_bounds)
  have k: "31556952000 * k \<le> t" "t < 31556952000 * k + 31556952000"
    unfolding k_def by (simp_all add: int_div_bounds)
  have lo: "400 * P \<le> 146097 * k - 145508"
    using DayFromYear_enclosure(2) [of "k + 1969"] by (simp add: P_def)
  have hi: "146097 * k + 291688 \<le> 400 * M"
    using DayFromYear_enclosure(1) [of "k + 1972"] by (simp add: M_def)
  have e: "k + 1969 + 1 = k + 1970" "k + 1970 + 1 = k + 1971" "k + 1971 + 1 = k + 1972"
    by simp_all
  have N: "N = F + L"
    unfolding N_def F_def L_def using DayFromYear_Suc [of "k + 1970"] unfolding e .
  have day: "Day t = D" by (simp add: Day_def msPerDay_def D_def)
  have year: "YearFromTime t =
      (if t < 86400000 * F then k + 1969
       else if 86400000 * F + 86400000 * L \<le> t then k + 1971 else k + 1970)"
    by (simp add: YearFromTime_def TimeFromYear_def msPerDay_def k_def F_def L_def Let_def)
  consider (before) "t < 86400000 * F"
    | (after) "\<not> t < 86400000 * F" "86400000 * F + 86400000 * L \<le> t"
    | (within) "\<not> t < 86400000 * F" "\<not> 86400000 * F + 86400000 * L \<le> t"
    by blast
  then have "DayFromYear (YearFromTime t) \<le> D \<and> D < DayFromYear (YearFromTime t + 1)"
  proof cases
    case before
    from before D have "D < F" by linarith
    moreover from lo k D have "P \<le> D" by linarith
    moreover from before have y: "YearFromTime t = k + 1969" by (simp add: year)
    have "DayFromYear (YearFromTime t) = P" "DayFromYear (YearFromTime t + 1) = F"
      by (simp_all only: y e P_def F_def)
    ultimately show ?thesis by simp
  next
    case after
    from after D N have "N \<le> D" by linarith
    moreover from hi k D have "D < M" by linarith
    moreover from after have y: "YearFromTime t = k + 1971" by (simp add: year)
    have "DayFromYear (YearFromTime t) = N" "DayFromYear (YearFromTime t + 1) = M"
      by (simp_all only: y e N_def M_def)
    ultimately show ?thesis by simp
  next
    case within
    from within D have "F \<le> D" by linarith
    moreover from within D N have "D < N" by linarith
    moreover from within have y: "YearFromTime t = k + 1970" by (simp add: year)
    have "DayFromYear (YearFromTime t) = F" "DayFromYear (YearFromTime t + 1) = N"
      by (simp_all only: y e F_def N_def)
    ultimately show ?thesis by simp
  qed
  then show "DayFromYear (YearFromTime t) \<le> Day t" "Day t < DayFromYear (YearFromTime t + 1)"
    by (simp_all add: day)
qed

lemma YearFromTime_mono:
  assumes "Day t1 \<le> Day t2"
  shows "YearFromTime t1 \<le> YearFromTime t2"
proof (rule ccontr)
  assume "\<not> YearFromTime t1 \<le> YearFromTime t2"
  then have "YearFromTime t2 + 1 \<le> YearFromTime t1" by simp
  then have "DayFromYear (YearFromTime t2 + 1) \<le> DayFromYear (YearFromTime t1)"
    by (rule DayFromYear_mono)
  with YearFromTime_correct(1) [of t1] YearFromTime_correct(2) [of t2] assms
  show False by linarith
qed

lemma YearFromTime_cong: "Day t1 = Day t2 \<Longrightarrow> YearFromTime t1 = YearFromTime t2"
  using YearFromTime_mono [of t1 t2] YearFromTime_mono [of t2 t1] by simp

lemma DayWithinYear_range:
  "0 \<le> DayWithinYear t" "DayWithinYear t < 365 + InLeapYear t"
proof -
  from YearFromTime_correct(1) [of t] show "0 \<le> DayWithinYear t"
    by (simp add: DayWithinYear_def)
  from YearFromTime_correct(2) [of t] DayFromYear_Suc [of "YearFromTime t"]
  show "DayWithinYear t < 365 + InLeapYear t"
    by (auto simp: DayWithinYear_def InLeapYear_def DaysInYear_def split: if_splits)
qed

lemma month_start_of_day:
  "month_start leap (month_of_day leap d) =
     (if d < 31 then 0
      else if d < 59 + leap then 31
      else if d < 90 + leap then 59 + leap
      else if d < 120 + leap then 90 + leap
      else if d < 151 + leap then 120 + leap
      else if d < 181 + leap then 151 + leap
      else if d < 212 + leap then 181 + leap
      else if d < 243 + leap then 212 + leap
      else if d < 273 + leap then 243 + leap
      else if d < 304 + leap then 273 + leap
      else if d < 334 + leap then 304 + leap
      else 334 + leap)"
  by (simp add: month_of_day_def month_start_def)

lemma month_of_day_mono:
  assumes "d1 \<le> d2"
  shows "month_of_day leap d1 \<le> month_of_day leap d2"
  using assms by (simp add: month_of_day_def)

lemma month_of_day_range: "0 \<le> month_of_day leap d" "month_of_day leap d \<le> 11"
  by (simp_all add: month_of_day_def)

lemma date_range:
  assumes "leap = 0 \<or> leap = 1" and "0 \<le> d" and "d < 365 + leap"
  shows "0 \<le> d - month_start leap (month_of_day leap d)"
    and "d - month_start leap (month_of_day leap d) \<le> 30"
  using assms unfolding month_start_of_day by auto

lemma month_date_mono:
  assumes "leap = 0 \<or> leap = 1" and "0 \<le> d1" and "d1 < d2" and "d2 < 365 + leap"
  shows "(month_of_day leap d1 + 1) * 100 + (d1 - month_start leap (month_of_day leap d1) + 1)
       < (month_of_day leap d2 + 1) * 100 + (d2 - month_start leap (month_of_day leap d2) + 1)"
proof -
  from assms have r1: "d1 - month_start leap (month_of_day leap d1) \<le> 30"
    by (intro date_range) auto
  from assms have r2: "0 \<le> d2 - month_start leap (month_of_day leap d2)"
    by (intro date_range) auto
  from assms(3) have "month_of_day leap d1 \<le> month_of_day leap d2"
    by (intro month_of_day_mono) simp
  then consider "month_of_day leap d1 = month_of_day leap d2"
    | "month_of_day leap d1 + 1 \<le> month_of_day leap d2" by linarith
  then show ?thesis
  proof cases
    case 1
    with assms(3) show ?thesis by simp
  next
    case 2
    with r1 r2 show ?thesis by (simp add: algebra_simps)
  qed
qed

lemma minute_decomposition:
  fixes t :: int
  defines "m \<equiv> t div msPerMinute"
  shows "Day t = m div 1440"
    and "HourFromTime t = (m div 60) mod 24"
    and "MinFromTime t = m mod 60"
    and "m = 1440 * Day t + 60 * HourFromTime t + MinFromTime t"
proof -
  have "t div 86400000 = t div (60000 * 1440)" by simp
  also have "\<dots> = t div 60000 div 1440" by (rule zdiv_zmult2_eq) simp
  finally show d: "Day t = m div 1440"
    by (simp add: Day_def msPerDay_def m_def msPerMinute_def)
  have "t div 3600000 = t div (60000 * 60)" by simp
  also have "\<dots> = t div 60000 div 60" by (rule zdiv_zmult2_eq) simp
  finally show h: "HourFromTime t = (m div 60) mod 24"
    by (simp add: HourFromTime_def msPerHour_def m_def msPerMinute_def)
  show mi: "MinFromTime t = m mod 60"
    by (simp add: MinFromTime_def m_def)
  have "m mod (60 * 24) = 60 * (m div 60 mod 24) + m mod 60"
    by (rule zmod_zmult2_eq) simp
  then have "m mod 1440 = 60 * HourFromTime t + MinFromTime t"
    by (simp add: h mi)
  moreover have "m = 1440 * (m div 1440) + m mod 1440" by simp
  ultimately show "m = 1440 * Day t + 60 * HourFromTime t + MinFromTime t"
    by (simp add: d)
qed

lemma hour_minute_range:
  "0 \<le> HourFromTime t" "HourFromTime t < 24" "0 \<le> MinFromTime t" "MinFromTime t < 60"
  by (simp_all add: HourFromTime_def MinFromTime_def)

lemma InLeapYear_cases: "InLeapYear t = 0 \<or> InLeapYear t = 1"
  by (simp add: InLeapYear_def)

lemma month_date_key_range:
  "101 \<le> 100 * (MonthFromTime t + 1) + DateFromTime t"
  "100 * (MonthFromTime t + 1) + DateFromTime t \<le> 1231"
proof -
  note r = DayWithinYear_range [of t]
  note d = date_range [OF InLeapYear_cases r]
  note m = month_of_day_range [of "InLeapYear t" "DayWithinYear t"]
  from d(1) m(1) show "101 \<le> 100 * (MonthFromTime t + 1) + DateFromTime t"
    by (simp add: MonthFromTime_def DateFromTime_def)
  from d(2) m(2) show "100 * (MonthFromTime t + 1) + DateFromTime t \<le> 1231"
    by (simp add: MonthFromTime_def DateFromTime_def)
qed

lemma calendar_key_alt:
  "calendar_key t =
     100000000 * YearFromTime t + 10000 * (100 * (MonthFromTime t + 1) + DateFromTime t)
     + (100 * HourFromTime t + MinFromTime t)"
  by (simp add: calendar_key_def)

lemma same_day_fields:
  assumes "Day t1 = Day t2"
  shows "YearFromTime t1 = YearFromTime t2" and "MonthFromTime t1 = MonthFromTime t2"
    and "DateFromTime t1 = DateFromTime t2"
proof -
  from assms show y: "YearFromTime t1 = YearFromTime t2" by (rule YearFromTime_cong)
  with assms have "InLeapYear t1 = InLeapYear t2" "DayWithinYear t1 = DayWithinYear t2"
    by (simp_all add: InLeapYear_def DayWithinYear_def)
  then show "MonthFromTime t1 = MonthFromTime t2" "DateFromTime t1 = DateFromTime t2"
    by (simp_all add: MonthFromTime_def DateFromTime_def)
qed

lemma same_minute_format:
  assumes "t1 div msPerMinute = t2 div msPerMinute"
  shows "formatMinute t1 = formatMinute t2"
proof -
  from assms minute_decomposition(1-3) [of t1] minute_decomposition(1-3) [of t2]
  have "Day t1 = Day t2" "HourFromTime t1 = HourFromTime t2" "MinFromTime t1 = MinFromTime t2"
    by simp_all
  with same_day_fields [of t1 t2] show ?thesis
    by (simp add: formatMinute_def)
qed

lemma calendar_key_mono:
  assumes "t1 div msPerMinute < t2 div msPerMinute"
  shows "calendar_key t1 < calendar_key t2"
proof -
  define H1 M1 H2 M2 where "H1 = HourFromTime t1" and "M1 = MinFromTime t1"
    and "H2 = HourFromTime t2" and "M2 = MinFromTime t2"
  define K1 K2 where "K1 = 100 * (MonthFromTime t1 + 1) + DateFromTime t1"
    and "K2 = 100 * (MonthFromTime t2 + 1) + DateFromTime t2"
  define Y1 Y2 where "Y1 = YearFromTime t1" and "Y2 = YearFromTime t2"
  have hm: "0 \<le> H1" "H1 < 24" "0 \<le> M1" "M1 < 60" "0 \<le> H2" "H2 < 24" "0 \<le> M2" "M2 < 60"
    unfolding H1_def M1_def H2_def M2_def by (rule hour_minute_range)+
  have k: "101 \<le> K1" "K1 \<le> 1231" "101 \<le> K2" "K2 \<le> 1231"
    unfolding K1_def K2_def by (rule month_date_key_range)+
  have key: "calendar_key t1 = 100000000 * Y1 + 10000 * K1 + (100 * H1 + M1)"
    "calendar_key t2 = 100000000 * Y2 + 10000 * K2 + (100 * H2 + M2)"
    by (simp_all add: calendar_key_alt Y1_def Y2_def K1_def K2_def H1_def H2_def M1_def M2_def)
  from assms minute_decomposition(4) [of t1] minute_decomposition(4) [of t2]
  have lt: "1440 * Day t1 + 60 * H1 + M1 < 1440 * Day t2 + 60 * H2 + M2"
    by (simp add: H1_def H2_def M1_def M2_def)
  with hm have "Day t1 \<le> Day t2" by linarith
  then consider (same) "Day t1 = Day t2" | (later) "Day t1 < Day t2" by linarith
  then show ?thesis
  proof cases
    case same
    from same_day_fields [OF same] have "Y1 = Y2" "K1 = K2"
      by (simp_all add: Y1_def Y2_def K1_def K2_def)
    moreover from same lt have "60 * H1 + M1 < 60 * H2 + M2" by simp
    with hm have "100 * H1 + M1 < 100 * H2 + M2"
      by (cases "H1 < H2"; cases "H1 = H2") linarith+
    ultimately show ?thesis by (simp add: key)
  next
    case later
    then have "Y1 \<le> Y2" unfolding Y1_def Y2_def by (intro YearFromTime_mono) simp
    then consider (same_year) "Y1 = Y2" | (later_year) "Y1 + 1 \<le> Y2" by linarith
    then show ?thesis
    proof cases
      case same_year
      then have leap: "InLeapYear t1 = InLeapYear t2"
        by (simp add: InLeapYear_def Y1_def Y2_def)
      from same_year later have "DayWithinYear t1 < DayWithinYear t2"
        by (simp add: DayWithinYear_def Y1_def Y2_def)
      with month_date_mono [OF InLeapYear_cases [of t2] _ _ DayWithinYear_range(2) [of t2],
          of "DayWithinYear t1"] DayWithinYear_range(1) [of t1]
      have "K1 < K2"
        by (simp add: K1_def K2_def MonthFromTime_def DateFromTime_def leap algebra_simps)
      with hm same_year show ?thesis unfolding key by linarith
    next
      case later_year
      with hm k show ?thesis unfolding key by linarith
    qed
  qed
qed

section \<open>Formatted timestamps as decimal numbers\<close>

lemma digit_char_props:
  assumes "n < 10"
  shows "isDigit (digit_char n)" and "digit_val (digit_char n) = n"
  using assms by (simp_all add: isDigit_def digit_val_def digit_char_def Let_def)

lemma digits_val_append:
  "digits_val 10 (a @ b) = digits_val 10 a * 10 ^ length b + digits_val 10 b"
proof (induction b rule: rev_induct)
  case Nil
  show ?case by (simp add: digits_val_def)
next
  case (snoc c b)
  have "digits_val 10 (a @ b @ [c]) = digits_val 10 (a @ b) * 10 + digit_val c"
    using digits_val_snoc [of 10 "a @ b" c] by simp
  with snoc show ?case by (simp add: digits_val_snoc algebra_simps)
qed

lemma digits_val_Cons:
  "digits_val 10 (x # xs) = digit_val x * 10 ^ length xs + digits_val 10 xs"
  using digits_val_append [of "[x]" xs] by (simp add: digits_val_def)

lemma nat_to_string_digits: "list_all isDigit (nat_to_string n)"
proof (induction n rule: nat_to_string.induct)
  case (1 n)
  show ?case
  proof (cases "n < 10")
    case True
    then show ?thesis by (simp add: nat_to_string_small digit_char_props)
  next
    case False
    with 1 show ?thesis by (simp add: nat_to_string_large digit_char_props)
  qed
qed

lemma nat_to_string_val: "digits_val 10 (nat_to_string n) = n"
proof (induction n rule: nat_to_string.induct)
  case (1 n)
  show ?case
  proof (cases "n < 10")
    case True
    then show ?thesis by (simp add: nat_to_string_small digits_val_def digit_char_props)
  next
    case False
    with 1 show ?thesis by (simp add: nat_to_string_large digits_val_snoc digit_char_props)
  qed
qed

lemma nat_to_string_length: "n < 10 ^ k \<Longrightarrow> 0 < k \<Longrightarrow> length (nat_to_string n) \<le> k"
proof (induction n arbitrary: k rule: nat_to_string.induct)
  case (1 n)
  show ?case
  proof (cases "n < 10")
    case True
    with 1(3) show ?thesis by (simp add: nat_to_string_small)
  next
    case False
    obtain j where k: "k = Suc j" using 1(3) by (cases k) auto
    from False 1(2) have "0 < j" unfolding k by (cases j) auto
    moreover from 1(2) have "n div 10 < 10 ^ j" unfolding k by (simp add: less_mult_imp_div_less)
    ultimately have "length (nat_to_string (n div 10)) \<le> j" using 1(1) [OF False] by simp
    with False show ?thesis by (simp add: nat_to_string_large k)
  qed
qed

lemma digits_val_zeros: "digits_val 10 (replicate j CHR ''0'') = 0"
proof (induction j)
  case 0
  show ?case by (simp add: digits_val_def)
next
  case (Suc j)
  have "digit_val CHR ''0'' = 0" by (simp add: digit_val_def)
  with Suc show ?case by (simp add: digits_val_Cons)
qed

lemma addLeadingZeros_props:
  assumes "0 \<le> x" and "nat x < 10 ^ k" and "0 < k"
  shows "length (addLeadingZeros x k) = k"
    and "list_all isDigit (addLeadingZeros x k)"
    and "digits_val 10 (addLeadingZeros x k) = nat x"
proof -
  let ?s = "nat_to_string (nat x)"
  have a: "addLeadingZeros x k = replicate (k - length ?s) CHR ''0'' @ ?s"
    using assms(1) by (simp add: addLeadingZeros_def Let_def)
  from nat_to_string_length [OF assms(2,3)] show "length (addLeadingZeros x k) = k"
    by (simp add: a)
  have "isDigit CHR ''0''" by (simp add: isDigit_def)
  then have "list_all isDigit (replicate (k - length ?s) CHR ''0'')"
    by (simp add: list_all_iff)
  then show "list_all isDigit (addLeadingZeros x k)"
    by (simp add: a nat_to_string_digits)
  show "digits_val 10 (addLeadingZeros x k) = nat x"
    by (simp add: a digits_val_append digits_val_zeros nat_to_string_val)
qed

lemma digit_order:
  assumes "isDigit x" and "isDigit y"
  shows "(of_char x :: nat) < of_char y \<longleftrightarrow> digit_val x < digit_val y"
  using assms by (auto simp: isDigit_def digit_val_def Let_def)

lemma js_lt_digits:
  assumes "length a = length b" and "list_all isDigit a" and "list_all isDigit b"
  shows "js_lt a b \<longleftrightarrow> digits_val 10 a < digits_val 10 b"
  using assms
proof (induction a b rule: list_induct2)
  case Nil
  show ?case by (simp add: digits_val_def)
next
  case (Cons x xs y ys)
  define P :: nat where "P = 10 ^ length xs"
  from Cons have IH: "js_lt xs ys \<longleftrightarrow> digits_val 10 xs < digits_val 10 ys" by simp
  from Cons.prems Cons.hyps have b: "digits_val 10 xs < P" "digits_val 10 ys < P"
    using digits_val_bound [of xs] digits_val_bound [of ys] by (simp_all add: P_def)
  from Cons.prems have o: "(of_char x :: nat) < of_char y \<longleftrightarrow> digit_val x < digit_val y"
    "(of_char y :: nat) < of_char x \<longleftrightarrow> digit_val y < digit_val x"
    by (simp_all add: digit_order)
  have v: "digits_val 10 (x # xs) = digit_val x * P + digits_val 10 xs"
    "digits_val 10 (y # ys) = digit_val y * P + digits_val 10 ys"
    using Cons.hyps by (simp_all add: digits_val_Cons P_def)
  consider (lt) "digit_val x < digit_val y" | (gt) "digit_val y < digit_val x"
    | (eq) "digit_val x = digit_val y" by linarith
  then show ?case
  proof cases
    case lt
    then have "(digit_val x + 1) * P \<le> digit_val y * P" by (intro mult_le_mono1) simp
    with b have "digit_val x * P + digits_val 10 xs < digit_val y * P + digits_val 10 ys"
      by (simp add: algebra_simps)
    with lt show ?thesis by (simp add: o v)
  next
    case gt
    then have "(digit_val y + 1) * P \<le> digit_val x * P" by (intro mult_le_mono1) simp
    with b have "digit_val y * P + digits_val 10 ys < digit_val x * P + digits_val 10 xs"
      by (simp add: algebra_simps)
    with gt show ?thesis by (simp add: o v)
  next
    case eq
    then show ?thesis by (simp add: o v IH)
  qed
qed

lemma month_date_fields_range:
  "0 \<le> MonthFromTime t" "MonthFromTime t \<le> 11" "1 \<le> DateFromTime t" "DateFromTime t \<le> 31"
proof -
  note d = date_range [OF InLeapYear_cases DayWithinYear_range, of t]
  show "0 \<le> MonthFromTime t" "MonthFromTime t \<le> 11"
    by (simp_all add: MonthFromTime_def month_of_day_range)
  from d show "1 \<le> DateFromTime t" "DateFromTime t \<le> 31"
    by (simp_all add: DateFromTime_def MonthFromTime_def)
qed

lemma formatMinute_props:
  assumes "0 < YearFromTime t" and "YearFromTime t \<le> 9999"
  shows "length (formatMinute t) = 12"
    and "list_all isDigit (formatMinute t)"
    and "int (digits_val 10 (formatMinute t)) = calendar_key t"
proof -
  note md = month_date_fields_range [of t]
  note hm = hour_minute_range [of t]
  have y: "0 \<le> YearFromTime t" "nat (YearFromTime t) < 10 ^ 4" "0 < (4::nat)"
    using assms by simp_all
  have mo: "0 \<le> MonthFromTime t + 1" "nat (MonthFromTime t + 1) < 10 ^ 2" "0 < (2::nat)"
    using md by simp_all
  have da: "0 \<le> DateFromTime t" "nat (DateFromTime t) < 10 ^ 2"
    using md by simp_all
  have ho: "0 \<le> HourFromTime t" "nat (HourFromTime t) < 10 ^ 2"
    using hm by simp_all
  have mi: "0 \<le> MinFromTime t" "nat (MinFromTime t) < 10 ^ 2"
    using hm by simp_all
  note A = addLeadingZeros_props [OF y]
  note B = addLeadingZeros_props [OF mo]
  note C = addLeadingZeros_props [OF da mo(3)]
  note D = addLeadingZeros_props [OF ho mo(3)]
  note E = addLeadingZeros_props [OF mi mo(3)]
  have f: "formatMinute t =
      addLeadingZeros (YearFromTime t) 4 @ addLeadingZeros (MonthFromTime t + 1) 2
      @ addLeadingZeros (DateFromTime t) 2 @ addLeadingZeros (HourFromTime t) 2
      @ addLeadingZeros (MinFromTime t) 2"
    using assms(1) by (simp add: formatMinute_def Let_def)
  show "length (formatMinute t) = 12"
    by (simp add: f A(1) B(1) C(1) D(1) E(1))
  show "list_all isDigit (formatMinute t)"
    by (simp add: f A(2) B(2) C(2) D(2) E(2))
  have "digits_val 10 (formatMinute t) =
      nat (YearFromTime t) * 100000000 + nat (MonthFromTime t + 1) * 1000000
      + nat (DateFromTime t) * 10000 + nat (HourFromTime t) * 100 + nat (MinFromTime t)"
    by (simp add: f digits_val_append A B C D E)
  then show "int (digits_val 10 (formatMinute t)) = calendar_key t"
    using y(1) mo(1) da(1) ho(1) mi(1) by (simp add: calendar_key_def)
qed

lemma format_lt_minutes:
  assumes "0 < YearFromTime a" and "YearFromTime a \<le> 9999"
    and "0 < YearFromTime b" and "YearFromTime b \<le> 9999"
  shows "js_lt (formatMinute a) (formatMinute b) \<longleftrightarrow> a div msPerMinute < b div msPerMinute"
proof -
  note pa = formatMinute_props [OF assms(1,2)]
  note pb = formatMinute_props [OF assms(3,4)]
  have key: "js_lt (formatMinute x) (formatMinute y) \<longleftrightarrow> calendar_key x < calendar_key y"
    if "length (formatMinute x) = 12" "list_all isDigit (formatMinute x)"
      "int (digits_val 10 (formatMinute x)) = calendar_key x"
      "length (formatMinute y) = 12" "list_all isDigit (formatMinute y)"
      "int (digits_val 10 (formatMinute y)) = calendar_key y" for x y
  proof -
    from that have "js_lt (formatMinute x) (formatMinute y)
        \<longleftrightarrow> digits_val 10 (formatMinute x) < digits_val 10 (formatMinute y)"
      by (intro js_lt_digits) simp_all
    also have "\<dots> \<longleftrightarrow> int (digits_val 10 (formatMinute x)) < int (digits_val 10 (formatMinute y))"
      by simp
    finally show ?thesis by (simp only: that)
  qed
  consider (lt) "a div msPerMinute < b div msPerMinute"
    | (eq) "a div msPerMinute = b div msPerMinute"
    | (gt) "b div msPerMinute < a div msPerMinute" by linarith
  then show ?thesis
  proof cases
    case lt
    with calendar_key_mono [OF lt] show ?thesis by (simp add: key pa pb)
  next
    case eq
    then have "formatMinute a = formatMinute b" by (rule same_minute_format)
    with eq show ?thesis by (simp add: js_lt_irrefl)
  next
    case gt
    from calendar_key_mono [OF gt] have "js_lt (formatMinute b) (formatMinute a)"
      by (simp add: key pa pb)
    then have "\<not> js_lt (formatMinute a) (formatMinute b)" by (rule js_lt_asym)
    with gt show ?thesis by simp
  qed
qed

lemma div_minute_mono: "(a::int) \<le> b \<Longrightarrow> a div msPerMinute \<le> b div msPerMinute"
  by (simp add: msPerMinute_def zdiv_mono1)

text \<open>
  C10, as the claim states it, fails: two instants of the same minute have the same
  formatted string, so the string comparison does not tell the earlier from the later.
\<close>

theorem same_minute_counterexample:
  "YearFromTime 1674720000000 = 2023 \<and> YearFromTime 1674720030000 = 2023
 \<and> (1674720000000 :: int) < 1674720030000
 \<and> \<not> js_lt (formatMinute 1674720000000) (formatMinute 1674720030000)"
  by (simp add: format_eval)

text \<open>
  C10, amended. For instants whose years are from 1 to 9999, which the pattern prints
  with four digits, one formatted string is smaller than the other exactly when the
  minute of its instant is earlier; the formatting is monotone, and the string the
  program picks as the end of the window is the formatted earlier one of the instant
  ten hours after the start (\<open>a\<close>) and the current instant (\<open>b\<close>).
\<close>

theorem format_order_agrees:
  assumes "0 < YearFromTime a" and "YearFromTime a \<le> 9999"
    and "0 < YearFromTime b" and "YearFromTime b \<le> 9999"
  shows "(js_lt (formatMinute a) (formatMinute b) \<longleftrightarrow> a div msPerMinute < b div msPerMinute)
       \<and> (a \<le> b \<longrightarrow> js_le (formatMinute a) (formatMinute b))
       \<and> (if js_lt (formatMinute a) (formatMinute b) then formatMinute a else formatMinute b)
           = formatMinute (min a b)
       \<and> (\<forall>T startTime endTime.
             convertTimestampToDate T = Some (a - 10 * 60 * 60 * 1000)
           \<and> resolveWindow T b = Some (startTime, endTime)
           \<longrightarrow> endTime = formatMinute (min a b))"
proof -
  note ab = format_lt_minutes [OF assms]
  note ba = format_lt_minutes [OF assms(3,4) assms(1,2)]
  have mono: "js_le (formatMinute a) (formatMinute b)" if "a \<le> b"
    using div_minute_mono [OF that] by (simp add: js_le_def ba)
  have pick: "(if js_lt (formatMinute a) (formatMinute b) then formatMinute a else formatMinute b)
           = formatMinute (min a b)"
  proof (cases "js_lt (formatMinute a) (formatMinute b)")
    case True
    with ab have "a div msPerMinute < b div msPerMinute" by simp
    with div_minute_mono [of b a] have "a < b" by (cases "a < b") auto
    with True show ?thesis by (simp add: min_def)
  next
    case False
    show ?thesis
    proof (cases "a \<le> b")
      case le: True
      from False ab have "b div msPerMinute \<le> a div msPerMinute" by simp
      with div_minute_mono [OF le] have "a div msPerMinute = b div msPerMinute" by simp
      then have "formatMinute a = formatMinute b" by (rule same_minute_format)
      with False le show ?thesis by (simp add: min_def)
    next
      case gt: False
      with False show ?thesis by (simp add: min_def)
    qed
  qed
  have window: "endTime = formatMinute (min a b)"
    if "convertTimestampToDate T = Some (a - 10 * 60 * 60 * 1000)"
      and "resolveWindow T b = Some (startTime, endTime)" for T startTime endTime
  proof -
    from that(2) obtain t where t: "convertTimestampToDate T = Some t"
      and e: "endTime = (if js_lt (formatMinute (t + 36000000)) (formatMinute b)
                         then formatMinute (t + 36000000) else formatMinute b)"
      by (rule resolveWindow_Some)
    from t that(1) have ta: "t + 36000000 = a" by simp
    show ?thesis unfolding e ta by (rule pick)
  qed
  from ab mono pick window show ?thesis by blast
qed

theorem format_order_agrees_witness:
  "(js_lt (formatMinute 1674745200000) (formatMinute 1674720000000) \<longleftrightarrow>
      (1674745200000 :: int) div msPerMinute < 1674720000000 div msPerMinute)
 \<and> (if js_lt (formatMinute 1674745200000) (formatMinute 1674720000000)
     then formatMinute 1674745200000 else formatMinute 1674720000000)
    = formatMinute (min 1674745200000 1674720000000)"
  using format_order_agrees [of 1674745200000 1674720000000]
  by (simp add: YearFromTime_def TimeFromYear_def DayFromYear_def DaysInYear_def msPerDay_def
      msPerMinute_def)

section \<open>The end of the window\<close>

lemma year_range_time:
  assumes "0 < YearFromTime a" and "YearFromTime a \<le> 9999"
  shows "\<bar>a\<bar> \<le> 8640000000000000"
proof -
  have "DayFromYear 1 \<le> DayFromYear (YearFromTime a)"
    using assms(1) by (intro DayFromYear_mono) simp
  with YearFromTime_correct(1) [of a] have lo: "- 719162 \<le> Day a"
    by (simp add: DayFromYear_def)
  have "DayFromYear (YearFromTime a + 1) \<le> DayFromYear 10000"
    using assms(2) by (intro DayFromYear_mono) simp
  with YearFromTime_correct(2) [of a] have hi: "Day a < 2932897"
    by (simp add: DayFromYear_def)
  have "86400000 * (a div 86400000) \<le> a" "a < 86400000 * (a div 86400000) + 86400000"
    by (simp_all add: int_div_bounds)
  with lo hi show ?thesis by (simp add: Day_def msPerDay_def)
qed

lemma format_pick_min:
  assumes "0 < YearFromTime a" and "YearFromTime a \<le> 9999"
    and "0 < YearFromTime b" and "YearFromTime b \<le> 9999"
  shows "(if js_lt (formatMinute a) (formatMinute b) then formatMinute a else formatMinute b)
           = formatMinute (min a b)"
proof (cases "js_lt (formatMinute a) (formatMinute b)")
  case True
  with format_lt_minutes [OF assms] have "a div msPerMinute < b div msPerMinute" by simp
  with div_minute_mono [of b a] have "a < b" by (cases "a < b") auto
  with True show ?thesis by (simp add: min_def)
next
  case False
  show ?thesis
  proof (cases "a \<le> b")
    case le: True
    from False format_lt_minutes [OF assms] have "b div msPerMinute \<le> a div msPerMinute"
      by simp
    with div_minute_mono [OF le] have "a div msPerMinute = b div msPerMinute" by simp
    then have "formatMinute a = formatMinute b" by (rule same_minute_format)
    with False le show ?thesis by (simp add: min_def)
  next
    case gt: False
    with False show ?thesis by (simp add: min_def)
  qed
qed

text \<open>
  While the instant ten hours after the start and the current instant have years from
  1 to 9999, every start timestamp that parses has a window, and its end is the
  formatted earlier one of the two instants.
\<close>

lemma window_end_four_digit_years:
  assumes "convertTimestampToDate T = Some t"
    and "0 < YearFromTime (t + 10 * 60 * 60 * 1000)"
    and "YearFromTime (t + 10 * 60 * 60 * 1000) \<le> 9999"
    and "0 < YearFromTime now" and "YearFromTime now \<le> 9999"
  shows "resolveWindow T now
           = Some (formatMinute t, formatMinute (min (t + 10 * 60 * 60 * 1000) now))"
proof -
  from assms(2,3) have a: "0 < YearFromTime (t + 36000000)" "YearFromTime (t + 36000000) \<le> 9999"
    by simp_all
  from year_range_time [OF a] have clip: "\<not> 8640000000000000 < \<bar>t + 36000000\<bar>" by simp
  have "resolveWindow T now
      = Some (formatMinute t,
              if js_lt (formatMinute (t + 36000000)) (formatMinute now)
              then formatMinute (t + 36000000) else formatMinute now)"
    using assms(1) clip
    by (simp add: resolveWindow_def format_def TimeClip_def utcToZonedTime_UTC_def)
  with format_pick_min [OF a assms(4,5)] show ?thesis by simp
qed

text \<open>
  C1. The end of the window is to be the earlier of the instant ten hours after the
  start and the current instant, as the program's own comment says: if 10 hours later
  exceeds the current time, use the current time. The program compares the two
  formatted strings, and a five-digit year is a smaller string than a four-digit one:
  for the start 9999-12-31 20:00 and the current instant 2023-01-26 08:00 the end of
  the window is \<open>1000001010600\<close>, ten hours after the start, though the current
  instant is the earlier.
\<close>

theorem window_end_after_year_9999:
  "convertTimestampToDate ''99991231200000000'' = Some 253402286400000
 \<and> resolveWindow ''99991231200000000'' 1674720000000
       = Some (''999912312000'', ''1000001010600'')
 \<and> formatMinute (253402286400000 + 10 * 60 * 60 * 1000) = ''1000001010600''
 \<and> formatMinute 1674720000000 = ''202301260800''
 \<and> (1674720000000 :: int) < 253402286400000 + 10 * 60 * 60 * 1000"
  by (simp add: resolveWindow_def convertTimestampToDate_def number_eval date_eval format_eval
      utcToZonedTime_UTC_def)

end
